theory Spec2Isabelle
  imports Main "HOL-Library.AList"
begin

section \<open>The Apollo configuration client (pyapollo/apollo_client.py)\<close>

text \<open>
  A shallow embedding of \<^verbatim>\<open>ApolloClient\<close>: namespace discovery, the fetch of one
  namespace's latest release, the in-memory cache, the local cache files and the
  synchronization pass. Methods keep their names without the leading underscore.
  A method that mutates the object returns an \<open>outcome\<close>: the object after a normal
  return, or the exception together with the object as the mutations made before the
  raise left it. A method that only reads returns \<open>exn + 'a\<close>.
  What the process cannot decide (the replies of the server, the order in which the
  directory is listed, whether a file can be opened for writing) is an \<open>env\<close>.
\<close>

subsection \<open>Exceptions (pyapollo/exceptions.py)\<close>

text \<open>
  \<^verbatim>\<open>class BasicException(BaseException)\<close> with its subclasses
  \<^verbatim>\<open>NameSpaceNotFoundException\<close> and \<^verbatim>\<open>ServerNotResponseException\<close>; the other
  constructors are the library exceptions the client can meet, all subclasses of
  \<^verbatim>\<open>Exception\<close>. \<open>RequestException\<close> stands for what \<^verbatim>\<open>requests.get\<close> raises other
  than \<^verbatim>\<open>ReadTimeout\<close>, \<open>OSError\<close> for failures of files and sockets.
\<close>

datatype exn =
    NameSpaceNotFoundException
  | ServerNotResponseException
  | RequestException
  | OSError
  | JSONDecodeError
  | AttributeError
  | KeyError
  | TypeError

definition is_BasicException :: "exn \<Rightarrow> bool" where
  "is_BasicException e = (e = NameSpaceNotFoundException \<or> e = ServerNotResponseException)"

text \<open>\<^verbatim>\<open>except Exception\<close>: \<open>BasicException\<close> derives from \<^verbatim>\<open>BaseException\<close> directly.\<close>

definition is_Exception :: "exn \<Rightarrow> bool" where
  "is_Exception e = (\<not> is_BasicException e)"

text \<open>
  \<^verbatim>\<open>str(e)\<close>. \<^verbatim>\<open>BasicException.__str__\<close> reads \<^verbatim>\<open>self.__name__\<close>, which an instance
  does not have, so it raises \<^verbatim>\<open>AttributeError\<close>; the text itself is only logged.
\<close>

definition str_exn :: "exn \<Rightarrow> exn + unit" where
  "str_exn e = (if is_BasicException e then Inl AttributeError else Inr ())"

subsection \<open>JSON values and \<^verbatim>\<open>json.loads\<close>\<close>

text \<open>
  The values \<^verbatim>\<open>json.loads\<close> and \<^verbatim>\<open>Response.json()\<close> produce. An object is the
  association list of its members, read with \<open>map_of\<close>; \<open>JNull\<close> is \<^verbatim>\<open>None\<close>.
  An integer literal is an \<open>int\<close>; a literal with a fraction or an exponent is kept
  as written (\<open>JReal\<close>), floating point is not modelled.
\<close>

datatype json =
    JNull
  | JBool bool
  | JInt int
  | JReal string
  | JStr string
  | JArr "json list"
  | JObj "(string \<times> json) list"

definition dquote :: char where
  "dquote = CHR 0x22"

definition backslash :: char where
  "backslash = CHR 0x5C"

definition LF :: char where
  "LF = CHR 0x0A"

definition CR :: char where
  "CR = CHR 0x0D"

definition is_ws :: "char \<Rightarrow> bool" where
  "is_ws c = (c = CHR '' '' \<or> c = CHR 0x09 \<or> c = LF \<or> c = CR)"

definition skip_ws :: "string \<Rightarrow> string" where
  "skip_ws s = dropWhile is_ws s"

definition is_digit :: "char \<Rightarrow> bool" where
  "is_digit c = (c \<in> set ''0123456789'')"

definition digit_val :: "char \<Rightarrow> int" where
  "digit_val c = int (of_char c) - 48"

definition hex_val :: "char \<Rightarrow> nat option" where
  "hex_val c =
     (if is_digit c then Some (of_char c - 48)
      else if c \<in> set ''abcdef'' then Some (of_char c - 87)
      else if c \<in> set ''ABCDEF'' then Some (of_char c - 55)
      else None)"

definition hex4 :: "string \<Rightarrow> nat option" where
  "hex4 s =
     (if length s = 4 \<and> list_all (\<lambda>c. hex_val c \<noteq> None) s
      then Some (foldl (\<lambda>n c. 16 * n + the (hex_val c)) 0 s)
      else None)"

definition unescape :: "char \<Rightarrow> char option" where
  "unescape e =
     (if e = dquote then Some dquote
      else if e = backslash then Some backslash
      else if e = CHR ''/'' then Some (CHR ''/'')
      else if e = CHR ''b'' then Some (CHR 0x08)
      else if e = CHR ''f'' then Some (CHR 0x0C)
      else if e = CHR ''n'' then Some LF
      else if e = CHR ''r'' then Some CR
      else if e = CHR ''t'' then Some (CHR 0x09)
      else None)"

definition cons_chr :: "char \<Rightarrow> (string \<times> string) option \<Rightarrow> (string \<times> string) option" where
  "cons_chr c r = (case r of None \<Rightarrow> None | Some (t, rest) \<Rightarrow> Some (c # t, rest))"

text \<open>
  The body of a string literal after its opening quote: the decoded text and the
  input left after the closing quote. A raw control character is refused (strict
  mode). Characters are the 8-bit characters of \<open>string\<close>: an escape
  \<^verbatim>\<open>\uXXXX\<close> above \<^verbatim>\<open>00FF\<close> has no value in this model and is refused.
\<close>

fun scanstring :: "string \<Rightarrow> (string \<times> string) option" where
  "scanstring [] = None"
| "scanstring (c # s) =
     (if c = dquote then Some ([], s)
      else if c = backslash then
        (case s of
           [] \<Rightarrow> None
         | e # s' \<Rightarrow>
            if e = CHR ''u'' then
              (case hex4 (take 4 s') of
                 None \<Rightarrow> None
               | Some n \<Rightarrow>
                  if n < 256 then cons_chr (char_of n) (scanstring (drop 4 s')) else None)
            else
              (case unescape e of
                 None \<Rightarrow> None
               | Some d \<Rightarrow> cons_chr d (scanstring s')))
      else if (of_char c :: nat) < 32 then None
      else cons_chr c (scanstring s))"

text \<open>
  A number, by the decoder's pattern
  \<^verbatim>\<open>(-?(?:0|[1-9]\d*))(\.\d+)?([eE][-+]?\d+)?\<close>: the integer part, the
  optional fraction and the optional exponent, each with the input left after it.
\<close>

definition scan_int :: "string \<Rightarrow> (string \<times> string) option" where
  "scan_int s =
     (let (sign, s1) =
            (case s of
               [] \<Rightarrow> ([], s)
             | c # r \<Rightarrow> if c = CHR ''-'' then ([c], r) else ([], s))
      in case s1 of
           [] \<Rightarrow> None
         | c # r \<Rightarrow>
            if c = CHR ''0'' then Some (sign @ [c], r)
            else if is_digit c
            then Some (sign @ c # takeWhile is_digit r, dropWhile is_digit r)
            else None)"

definition scan_frac :: "string \<Rightarrow> string \<times> string" where
  "scan_frac s =
     (case s of
        [] \<Rightarrow> ([], s)
      | c # r \<Rightarrow>
         if c = CHR ''.'' \<and> takeWhile is_digit r \<noteq> []
         then (c # takeWhile is_digit r, dropWhile is_digit r)
         else ([], s))"

definition scan_exp :: "string \<Rightarrow> string \<times> string" where
  "scan_exp s =
     (case s of
        [] \<Rightarrow> ([], s)
      | c # r \<Rightarrow>
         if c = CHR ''e'' \<or> c = CHR ''E'' then
           (let (sg, r') =
                  (case r of
                     [] \<Rightarrow> ([], r)
                   | d # r2 \<Rightarrow> if d = CHR ''+'' \<or> d = CHR ''-'' then ([d], r2) else ([], r))
            in if takeWhile is_digit r' \<noteq> []
               then (c # sg @ takeWhile is_digit r', dropWhile is_digit r')
               else ([], s))
         else ([], s))"

text \<open>\<^verbatim>\<open>int(integer)\<close> for a matched integer part.\<close>

definition int_of_literal :: "string \<Rightarrow> int" where
  "int_of_literal i =
     (case i of
        [] \<Rightarrow> 0
      | c # r \<Rightarrow>
         if c = CHR ''-'' then - foldl (\<lambda>n d. 10 * n + digit_val d) 0 r
         else foldl (\<lambda>n d. 10 * n + digit_val d) 0 i)"

definition scan_number :: "string \<Rightarrow> (json \<times> string) option" where
  "scan_number s =
     (case scan_int s of
        None \<Rightarrow> None
      | Some (integer, s2) \<Rightarrow>
         (let (frac, s3) = scan_frac s2;
              (ex, s4) = scan_exp s3
          in Some (if frac = [] \<and> ex = [] then JInt (int_of_literal integer)
                   else JReal (integer @ frac @ ex), s4)))"

definition starts_with :: "string \<Rightarrow> string \<Rightarrow> bool" where
  "starts_with s p = (take (length p) s = p)"

text \<open>
  The recursive descent of the decoder. The first argument bounds the depth of the
  calls. Every call but the one from \<open>parse_elements\<close> to \<open>parse_value\<close> has
  consumed a character, so twice the length of the text is enough: a larger bound
  gives \<open>json_loads\<close> the same result (\<open>json_loads_fuel\<close> below).
  A repeated member name keeps its first place and takes the last value, as
  building the \<^verbatim>\<open>dict\<close> does.
\<close>

fun parse_value :: "nat \<Rightarrow> string \<Rightarrow> (json \<times> string) option"
  and parse_elements :: "nat \<Rightarrow> string \<Rightarrow> json list \<Rightarrow> (json \<times> string) option"
  and parse_members :: "nat \<Rightarrow> string \<Rightarrow> (string \<times> json) list \<Rightarrow> (json \<times> string) option"
where
  "parse_value 0 s = None"
| "parse_value (Suc n) s =
     (case s of
        [] \<Rightarrow> None
      | c # r \<Rightarrow>
         if c = dquote then
           (case scanstring r of None \<Rightarrow> None | Some (t, r') \<Rightarrow> Some (JStr t, r'))
         else if c = CHR ''{'' then
           (case skip_ws r of
              [] \<Rightarrow> None
            | c' # r' \<Rightarrow>
               if c' = dquote then parse_members n r' []
               else if c' = CHR ''}'' then Some (JObj [], r')
               else None)
         else if c = CHR ''['' then
           (case skip_ws r of
              [] \<Rightarrow> None
            | c' # r' \<Rightarrow>
               if c' = CHR '']'' then Some (JArr [], r')
               else parse_elements n (c' # r') [])
         else if starts_with s ''null'' then Some (JNull, drop 4 s)
         else if starts_with s ''true'' then Some (JBool True, drop 4 s)
         else if starts_with s ''false'' then Some (JBool False, drop 5 s)
         else
           (case scan_number s of
              Some v \<Rightarrow> Some v
            | None \<Rightarrow>
               if starts_with s ''NaN'' then Some (JReal ''NaN'', drop 3 s)
               else if starts_with s ''Infinity'' then Some (JReal ''Infinity'', drop 8 s)
               else if starts_with s ''-Infinity'' then Some (JReal ''-Infinity'', drop 9 s)
               else None))"
| "parse_elements 0 s acc = None"
| "parse_elements (Suc n) s acc =
     (case parse_value n s of
        None \<Rightarrow> None
      | Some (v, r) \<Rightarrow>
         (case skip_ws r of
            [] \<Rightarrow> None
          | c # r' \<Rightarrow>
             if c = CHR '']'' then Some (JArr (acc @ [v]), r')
             else if c = CHR '','' then parse_elements n (skip_ws r') (acc @ [v])
             else None))"
| "parse_members 0 s acc = None"
| "parse_members (Suc n) s acc =
     (case scanstring s of
        None \<Rightarrow> None
      | Some (k, r) \<Rightarrow>
         (case skip_ws r of
            [] \<Rightarrow> None
          | c # r1 \<Rightarrow>
             if c \<noteq> CHR '':'' then None
             else
               (case parse_value n (skip_ws r1) of
                  None \<Rightarrow> None
                | Some (v, r2) \<Rightarrow>
                   (case skip_ws r2 of
                      [] \<Rightarrow> None
                    | c2 # r3 \<Rightarrow>
                       if c2 = CHR ''}'' then Some (JObj (AList.update k v acc), r3)
                       else if c2 \<noteq> CHR '','' then None
                       else
                         (case skip_ws r3 of
                            [] \<Rightarrow> None
                          | c3 # r4 \<Rightarrow>
                             if c3 = dquote then parse_members n r4 (AList.update k v acc)
                             else None)))))"

text \<open>
  \<^verbatim>\<open>json.loads(s)\<close> for a \<^verbatim>\<open>str\<close>: white space, one value, white space, the end
  of the text; anything else raises \<^verbatim>\<open>JSONDecodeError\<close>.
\<close>

definition json_loads :: "string \<Rightarrow> exn + json" where
  "json_loads s =
     (case parse_value (2 * length s + 2) (skip_ws s) of
        None \<Rightarrow> Inl JSONDecodeError
      | Some (v, r) \<Rightarrow> if skip_ws r = [] then Inr v else Inl JSONDecodeError)"

text \<open>\<^verbatim>\<open>json.loads(x)\<close> for a decoded value \<open>x\<close>: only a string is accepted.\<close>

definition py_json_loads :: "json \<Rightarrow> exn + json" where
  "py_json_loads x = (case x of JStr s \<Rightarrow> json_loads s | _ \<Rightarrow> Inl TypeError)"

text \<open>\<^verbatim>\<open>x.get(k, d)\<close>: only a \<^verbatim>\<open>dict\<close> has the method.\<close>

definition py_get :: "json \<Rightarrow> string \<Rightarrow> json \<Rightarrow> exn + json" where
  "py_get x k d =
     (case x of
        JObj kvs \<Rightarrow> Inr (case map_of kvs k of None \<Rightarrow> d | Some v \<Rightarrow> v)
      | _ \<Rightarrow> Inl AttributeError)"

text \<open>\<^verbatim>\<open>x[k]\<close> for a string \<open>k\<close>.\<close>

definition py_getitem :: "json \<Rightarrow> string \<Rightarrow> exn + json" where
  "py_getitem x k =
     (case x of
        JObj kvs \<Rightarrow> (case map_of kvs k of None \<Rightarrow> Inl KeyError | Some v \<Rightarrow> Inr v)
      | _ \<Rightarrow> Inl TypeError)"

text \<open>\<^verbatim>\<open>for _ in x\<close>: the elements of a list, the keys of a dict, the characters of a string.\<close>

definition py_iter :: "json \<Rightarrow> exn + json list" where
  "py_iter x =
     (case x of
        JArr xs \<Rightarrow> Inr xs
      | JObj kvs \<Rightarrow> Inr (map JStr (remdups (map fst kvs)))
      | JStr s \<Rightarrow> Inr (map (\<lambda>c. JStr [c]) s)
      | _ \<Rightarrow> Inl TypeError)"

subsection \<open>Strings and paths\<close>

text \<open>\<^verbatim>\<open>str(n)\<close> for the port number.\<close>

fun str_nat :: "nat \<Rightarrow> string" where
  "str_nat n =
     (if n < 10 then [''0123456789'' ! n]
      else str_nat (n div 10) @ [''0123456789'' ! (n mod 10)])"

text \<open>\<^verbatim>\<open>s.split(sep)\<close> for a one-character separator: never an empty list.\<close>

fun str_split :: "char \<Rightarrow> string \<Rightarrow> string list" where
  "str_split sep [] = [[]]"
| "str_split sep (c # cs) =
     (if c = sep then [] # str_split sep cs
      else (case str_split sep cs of [] \<Rightarrow> [[c]] | t # ts \<Rightarrow> (c # t) # ts))"

text \<open>\<^verbatim>\<open>p.rfind(c)\<close>: the last index of \<open>c\<close>, or \<open>-1\<close>.\<close>

definition rfind :: "string \<Rightarrow> char \<Rightarrow> int" where
  "rfind p c =
     (if c \<in> set p then int (length p) - 1 - int (length (takeWhile (\<lambda>x. x \<noteq> c) (rev p)))
      else - 1)"

text \<open>
  \<^verbatim>\<open>os.path.splitext(p)\<close> (posixpath): the extension starts at the last dot of the
  last path component, unless only dots precede it there.
\<close>

definition splitext :: "string \<Rightarrow> string \<times> string" where
  "splitext p =
     (let sepIndex = rfind p (CHR ''/'');
          dotIndex = rfind p (CHR ''.'')
      in if dotIndex > sepIndex
            \<and> list_ex (\<lambda>c. c \<noteq> CHR ''.'')
                (take (nat (dotIndex - (sepIndex + 1))) (drop (nat (sepIndex + 1)) p))
         then (take (nat dotIndex) p, drop (nat dotIndex) p)
         else (p, []))"

text \<open>
  Reading a file opened in text mode translates \<^verbatim>\<open>\r\n\<close> and \<^verbatim>\<open>\r\<close> to
  \<^verbatim>\<open>\n\<close>; \<^verbatim>\<open>f.readline()\<close> is the text up to and including the first \<^verbatim>\<open>\n\<close>.
  Writing on POSIX stores the text as it is.
\<close>

fun universal_newlines :: "string \<Rightarrow> string" where
  "universal_newlines [] = []"
| "universal_newlines [c] = (if c = CR then [LF] else [c])"
| "universal_newlines (c # d # s) =
     (if c = CR \<and> d = LF then LF # universal_newlines s
      else if c = CR then LF # universal_newlines (d # s)
      else c # universal_newlines (d # s))"

definition readline :: "string \<Rightarrow> string" where
  "readline s = takeWhile (\<lambda>c. c \<noteq> LF) s @ (if LF \<in> set s then [LF] else [])"

subsection \<open>The cache directory\<close>

text \<open>
  The directory \<^verbatim>\<open>self._cache_file_path\<close> as a map from the path below it to what
  is there: a readable regular file with its stored text, or a directory.
\<close>

datatype entry = File string | Directory

definition isfile :: "(string \<rightharpoonup> entry) \<Rightarrow> string \<Rightarrow> bool" where
  "isfile d p = (case d p of Some (File c) \<Rightarrow> True | _ \<Rightarrow> False)"

text \<open>\<^verbatim>\<open>f.read()\<close> of an existing regular file.\<close>

definition file_read :: "(string \<rightharpoonup> entry) \<Rightarrow> string \<Rightarrow> string" where
  "file_read d p = (case d p of Some (File c) \<Rightarrow> universal_newlines c | _ \<Rightarrow> [])"

text \<open>\<^verbatim>\<open>"%s_configuration_%s.txt" % (self.app_id, namespace)\<close>\<close>

definition cache_file_name :: "string \<Rightarrow> string \<Rightarrow> string" where
  "cache_file_name app namespace = app @ ''_configuration_'' @ namespace @ ''.txt''"

subsection \<open>The HTTP layer\<close>

text \<open>
  A \<^verbatim>\<open>requests.Response\<close> as far as the client reads it: the status code and what
  \<^verbatim>\<open>r.json()\<close> gives, the decoded body or the exception of the decoding.
\<close>

record response =
  status_code :: nat
  body_json :: "exn + json"

text \<open>
  What \<^verbatim>\<open>requests.get\<close> does for a URL: it returns a response, raises
  \<^verbatim>\<open>ReadTimeout\<close> (then the client probes the host with \<^verbatim>\<open>Telnet\<close>, which
  connects, is refused, or fails otherwise), or raises something else. The probe
  is given \<^verbatim>\<open>self.host\<close>, which keeps the scheme of the URL; what becomes of
  that name is the environment's part.
\<close>

datatype probe = Connected | ConnectionRefused | ProbeFailed

datatype transport = Reply response | ReadTimeout probe | RequestFailed

record env =
  requests_get :: "string \<Rightarrow> transport"
  os_listdir :: "(string \<rightharpoonup> entry) \<Rightarrow> string list"
  can_open_w :: "string \<Rightarrow> bool"

text \<open>
  \<^verbatim>\<open>_http_get\<close>. Both branches on \<^verbatim>\<open>self._authorization\<close> make the same call
  apart from the header.
\<close>

definition http_get :: "env \<Rightarrow> string \<Rightarrow> exn + response" where
  "http_get env url =
     (case requests_get env url of
        Reply r \<Rightarrow> Inr r
      | ReadTimeout p \<Rightarrow>
         (case p of
            Connected \<Rightarrow> Inl NameSpaceNotFoundException
          | ConnectionRefused \<Rightarrow> Inl ServerNotResponseException
          | ProbeFailed \<Rightarrow> Inl OSError)
      | RequestFailed \<Rightarrow> Inl RequestException)"

subsection \<open>The client object\<close>

text \<open>
  The fields of \<^verbatim>\<open>ApolloClient\<close> the synchronization uses (\<open>cache\<close> is
  \<^verbatim>\<open>_cache\<close>, \<open>hash\<close> is \<^verbatim>\<open>_hash\<close>), the cache directory \<open>disk\<close>, and
  \<open>write_log\<close>, the calls of \<^verbatim>\<open>f.write\<close> made so far (file name and text), kept
  to count disk writes.
\<close>

record client =
  app_id :: string
  cluster :: string
  host :: string
  port :: nat
  cache :: "string \<rightharpoonup> json"
  notification_map :: "(string \<times> json) list"
  hash :: "string \<rightharpoonup> json"
  disk :: "string \<rightharpoonup> entry"
  write_log :: "(string \<times> string) list"

datatype outcome = Return client | Raise exn client

definition final :: "outcome \<Rightarrow> client" where
  "final r = (case r of Return s \<Rightarrow> s | Raise e s \<Rightarrow> s)"

definition raised :: "outcome \<Rightarrow> exn option" where
  "raised r = (case r of Return s \<Rightarrow> None | Raise e s \<Rightarrow> Some e)"

definition namespaces_url :: "client \<Rightarrow> string" where
  "namespaces_url self =
     host self @ '':'' @ str_nat (port self) @ ''/apps/'' @ app_id self
       @ ''/clusters/'' @ cluster self @ ''/namespaces''"

definition release_url :: "client \<Rightarrow> string \<Rightarrow> string" where
  "release_url self namespace =
     host self @ '':'' @ str_nat (port self) @ ''/apps/'' @ app_id self
       @ ''/clusters/'' @ cluster self @ ''/namespaces/'' @ namespace @ ''/releases/latest''"

subsection \<open>Namespace discovery\<close>

text \<open>
  \<^verbatim>\<open>{_.get("namespaceName"): _.get("id") for _ in namespaces}\<close>. Namespaces are
  strings in this model (\<^verbatim>\<open>namespace: str\<close>): an element whose name is missing or
  is not a string is reported as \<^verbatim>\<open>TypeError\<close>.
\<close>

fun namespaces_dict :: "json list \<Rightarrow> (string \<times> json) list \<Rightarrow> exn + (string \<times> json) list" where
  "namespaces_dict [] acc = Inr acc"
| "namespaces_dict (x # xs) acc =
     (case py_get x ''namespaceName'' JNull of
        Inl e \<Rightarrow> Inl e
      | Inr name \<Rightarrow>
         (case py_get x ''id'' JNull of
            Inl e \<Rightarrow> Inl e
          | Inr ident \<Rightarrow>
             (case name of
                JStr n \<Rightarrow> namespaces_dict xs (AList.update n ident acc)
              | _ \<Rightarrow> Inl TypeError)))"

definition get_namespaces :: "env \<Rightarrow> client \<Rightarrow> exn + (string \<times> json) list" where
  "get_namespaces env self =
     (case http_get env (namespaces_url self) of
        Inl e \<Rightarrow> Inl e
      | Inr r \<Rightarrow>
         if status_code r = 200 then
           (case body_json r of
              Inl e \<Rightarrow> Inl e
            | Inr namespaces \<Rightarrow>
               (case py_iter namespaces of
                  Inl e \<Rightarrow> Inl e
                | Inr items \<Rightarrow> namespaces_dict items []))
         else Inr [(''application'', JInt (- 1))])"

subsection \<open>The local cache files\<close>

text \<open>
  \<^verbatim>\<open>_update_local_cache\<close>. \<^verbatim>\<open>self._hash.get(namespace)\<close> is \<^verbatim>\<open>None\<close> for a
  namespace not written yet. \<^verbatim>\<open>open(..., "w")\<close> raises when the file cannot be
  opened and empties it otherwise; \<^verbatim>\<open>f.write(data)\<close> raises \<^verbatim>\<open>TypeError\<close> for
  anything but a string. Release keys are compared as JSON values: the service
  sends strings, on which this is Python's \<^verbatim>\<open>!=\<close>.
\<close>

definition update_local_cache :: "env \<Rightarrow> json \<Rightarrow> json \<Rightarrow> string \<Rightarrow> client \<Rightarrow> outcome" where
  "update_local_cache env release_key data namespace self =
     (if (case hash self namespace of None \<Rightarrow> JNull | Some k \<Rightarrow> k) \<noteq> release_key then
        (let name = cache_file_name (app_id self) namespace
         in if disk self name = Some Directory \<or> \<not> can_open_w env name
            then Raise OSError self
            else
              (case data of
                 JStr s \<Rightarrow>
                   Return (self\<lparr>disk := (disk self)(name \<mapsto> File s),
                                write_log := write_log self @ [(name, s)],
                                hash := (hash self)(namespace \<mapsto> release_key)\<rparr>)
               | _ \<Rightarrow> Raise TypeError (self\<lparr>disk := (disk self)(name \<mapsto> File [])\<rparr>)))
      else Return self)"

text \<open>\<^verbatim>\<open>_get_local_cache_by_namespace\<close>\<close>

definition get_local_cache_by_namespace :: "string \<Rightarrow> client \<Rightarrow> exn + json" where
  "get_local_cache_by_namespace namespace self =
     (let cache_file_path = cache_file_name (app_id self) namespace
      in if isfile (disk self) cache_file_path
         then json_loads (readline (file_read (disk self) cache_file_path))
         else Inr (JObj []))"

text \<open>
  \<^verbatim>\<open>_read_from_local_cache_file\<close>: the loop over \<^verbatim>\<open>os.listdir\<close>, then the method.
\<close>

fun read_files :: "string list \<Rightarrow> client \<Rightarrow> outcome" where
  "read_files [] self = Return self"
| "read_files (file_name # rest) self =
     (if isfile (disk self) file_name then
        (let (file_simple_name, file_ext_name) = splitext file_name
         in if file_ext_name = ''.swp'' then read_files rest self
            else
              (let namespace = last (str_split (CHR ''_'') file_simple_name)
               in case json_loads (file_read (disk self) file_name) of
                    Inl e \<Rightarrow> Raise e self
                  | Inr v \<Rightarrow> read_files rest (self\<lparr>cache := (cache self)(namespace \<mapsto> v)\<rparr>)))
      else read_files rest self)"

definition read_from_local_cache_file :: "env \<Rightarrow> client \<Rightarrow> outcome" where
  "read_from_local_cache_file env self = read_files (os_listdir env (disk self)) self"

subsection \<open>Fetching one namespace\<close>

text \<open>
  The body of the \<^verbatim>\<open>try\<close> in \<^verbatim>\<open>_get_config_by_namespace\<close>. The logging call
  evaluates \<^verbatim>\<open>data["releaseKey"]\<close> after the cache has been assigned.
\<close>

definition get_config_try :: "env \<Rightarrow> string \<Rightarrow> client \<Rightarrow> outcome" where
  "get_config_try env namespace self =
     (case http_get env (release_url self namespace) of
        Inl e \<Rightarrow> Raise e self
      | Inr r \<Rightarrow>
         if status_code r = 200 then
           (case body_json r of
              Inl e \<Rightarrow> Raise e self
            | Inr data \<Rightarrow>
               (case py_get data ''configurations'' (JStr ''{}'') of
                  Inl e \<Rightarrow> Raise e self
                | Inr configurations \<Rightarrow>
                   (case py_json_loads configurations of
                      Inl e \<Rightarrow> Raise e self
                    | Inr snapshot \<Rightarrow>
                       (let self1 = self\<lparr>cache := (cache self)(namespace \<mapsto> snapshot)\<rparr>
                        in case py_getitem data ''releaseKey'' of
                             Inl e \<Rightarrow> Raise e self1
                           | Inr release_key \<Rightarrow>
                              (case py_get data ''configurations'' (JObj []) of
                                 Inl e \<Rightarrow> Raise e self1
                               | Inr text \<Rightarrow>
                                  update_local_cache env release_key text namespace self1)))))
         else
           (case get_local_cache_by_namespace namespace self of
              Inl e \<Rightarrow> Raise e self
            | Inr data \<Rightarrow> Return (self\<lparr>cache := (cache self)(namespace \<mapsto> data)\<rparr>)))"

text \<open>
  \<^verbatim>\<open>_get_config_by_namespace\<close>: the \<^verbatim>\<open>try\<close> with its handler
  \<^verbatim>\<open>except BaseException as e\<close>, which logs \<^verbatim>\<open>str(e)\<close> and then reads the local
  cache file.
\<close>

definition get_config_by_namespace :: "env \<Rightarrow> string \<Rightarrow> client \<Rightarrow> outcome" where
  "get_config_by_namespace env namespace self =
     (case get_config_try env namespace self of
        Return s \<Rightarrow> Return s
      | Raise e s \<Rightarrow>
         (case str_exn e of
            Inl e' \<Rightarrow> Raise e' s
          | Inr u \<Rightarrow>
             (case get_local_cache_by_namespace namespace s of
                Inl e' \<Rightarrow> Raise e' s
              | Inr data \<Rightarrow> Return (s\<lparr>cache := (cache s)(namespace \<mapsto> data)\<rparr>))))"

subsection \<open>The public read\<close>

text \<open>\<^verbatim>\<open>get_value\<close>, with its handler \<^verbatim>\<open>except BasicException\<close>.\<close>

definition get_value :: "string \<Rightarrow> json \<Rightarrow> string \<Rightarrow> client \<Rightarrow> exn + json" where
  "get_value key default_val namespace self =
     (case (case cache self namespace of
              Some snapshot \<Rightarrow> py_get snapshot key default_val
            | None \<Rightarrow> Inr default_val) of
        Inl e \<Rightarrow> if is_BasicException e then Inr default_val else Inl e
      | Inr v \<Rightarrow> Inr v)"

subsection \<open>The synchronization pass and the polling loop\<close>

text \<open>The \<^verbatim>\<open>for\<close> loop of \<^verbatim>\<open>_read_from_server\<close> over the discovered namespaces.\<close>

fun fetch_namespaces :: "env \<Rightarrow> string list \<Rightarrow> client \<Rightarrow> outcome" where
  "fetch_namespaces env [] self = Return self"
| "fetch_namespaces env (namespace # rest) self =
     (case get_config_by_namespace env namespace self of
        Return s \<Rightarrow> fetch_namespaces env rest s
      | Raise e s \<Rightarrow> Raise e s)"

text \<open>The body of the \<^verbatim>\<open>try\<close> in \<^verbatim>\<open>_read_from_server\<close>.\<close>

definition read_from_server_try :: "env \<Rightarrow> client \<Rightarrow> outcome" where
  "read_from_server_try env self =
     (case get_namespaces env self of
        Inl e \<Rightarrow> Raise e self
      | Inr namespaces \<Rightarrow>
         fetch_namespaces env (map fst namespaces) (self\<lparr>notification_map := namespaces\<rparr>))"

text \<open>\<^verbatim>\<open>_read_from_server\<close>, with its handler \<^verbatim>\<open>except Exception as e\<close>.\<close>

definition read_from_server :: "env \<Rightarrow> client \<Rightarrow> outcome" where
  "read_from_server env self =
     (case read_from_server_try env self of
        Return s \<Rightarrow> Return s
      | Raise e s \<Rightarrow>
         if is_Exception e then
           (case str_exn e of
              Inl e' \<Rightarrow> Raise e' s
            | Inr u \<Rightarrow> read_from_local_cache_file env s)
         else Raise e s)"



section \<open>Derived notions\<close>

text \<open>
  Names for what the code computes in passing. \<open>file_namespace\<close> is the cache key
  the cold-start scan derives from a file name; \<open>scanned\<close> says that the scan opens
  the file (a regular file whose extension is not \<^verbatim>\<open>.swp\<close>); \<open>parses\<close> that
  \<^verbatim>\<open>json.loads(f.read())\<close> succeeds on it.
\<close>

definition file_namespace :: "string \<Rightarrow> string" where
  "file_namespace file_name = last (str_split (CHR ''_'') (fst (splitext file_name)))"

definition scanned :: "(string \<rightharpoonup> entry) \<Rightarrow> string \<Rightarrow> bool" where
  "scanned d file_name = (isfile d file_name \<and> snd (splitext file_name) \<noteq> ''.swp'')"

definition parses :: "(string \<rightharpoonup> entry) \<Rightarrow> string \<Rightarrow> bool" where
  "parses d file_name = (case json_loads (file_read d file_name) of Inl e \<Rightarrow> False | Inr v \<Rightarrow> True)"

text \<open>
  The remote fetch of a namespace fails in a way the handler of
  \<^verbatim>\<open>_get_config_by_namespace\<close> can log: the response is not a 200, or the HTTP
  layer raised an exception of the \<^verbatim>\<open>Exception\<close> hierarchy.
\<close>

definition fetch_fails :: "env \<Rightarrow> client \<Rightarrow> string \<Rightarrow> bool" where
  "fetch_fails env self namespace =
     (case http_get env (release_url self namespace) of
        Inl e \<Rightarrow> is_Exception e
      | Inr r \<Rightarrow> status_code r \<noteq> 200)"

text \<open>
  What the fetch of one namespace may change: the cache entry, the recorded release
  key and the cache file of that namespace (and \<open>write_log\<close>), nothing that
  another namespace's fetch reads.
\<close>

definition touches_only :: "string \<Rightarrow> client \<Rightarrow> client \<Rightarrow> bool" where
  "touches_only namespace s s' =
     (app_id s' = app_id s \<and> cluster s' = cluster s \<and> host s' = host s \<and> port s' = port s
      \<and> (\<forall>m. m \<noteq> namespace \<longrightarrow> cache s' m = cache s m \<and> hash s' m = hash s m)
      \<and> (\<forall>p. p \<noteq> cache_file_name (app_id s) namespace \<longrightarrow> disk s' p = disk s p))"

section \<open>Scenarios\<close>

text \<open>
  A client for application \<^verbatim>\<open>test\<close> on the default cluster and server, before
  its first pass, and the same client in later states: with a snapshot in memory
  and nothing on disk (\<open>warm_client\<close>), with a record on disk written under
  release key \<^verbatim>\<open>r1\<close> (\<open>cached_client\<close>), with a record that is not JSON
  (\<open>broken_client\<close>, \<open>mixed_client\<close>), with the record of another namespace
  (\<open>db_client\<close>).
\<close>

definition demo_client :: client where
  "demo_client =
     \<lparr>app_id = ''test'', cluster = ''default'', host = ''http://localhost'', port = 8090,
      cache = Map.empty, notification_map = [], hash = Map.empty, disk = Map.empty,
      write_log = []\<rparr>"

definition warm_client :: client where
  \<open>warm_client = demo_client\<lparr>cache := [''application'' \<mapsto> JObj [(''timeout'', JStr ''60'')]]\<rparr>\<close>

definition cached_client :: client where
  \<open>cached_client =
     demo_client\<lparr>hash := [''application'' \<mapsto> JStr ''r1''],
                  disk := [''test_configuration_application.txt'' \<mapsto> File ''{"timeout":"60"}'']\<rparr>\<close>

definition broken_client :: client where
  \<open>broken_client =
     demo_client\<lparr>disk := [''test_configuration_application.txt'' \<mapsto> File ''not json'']\<rparr>\<close>

definition mixed_client :: client where
  \<open>mixed_client =
     demo_client\<lparr>disk := [''test_configuration_application.txt'' \<mapsto> File ''not json'',
                           ''test_configuration_db.txt'' \<mapsto> File ''{"timeout":"60"}'']\<rparr>\<close>

definition db_client :: client where
  \<open>db_client =
     demo_client\<lparr>disk := [''test_configuration_db.txt'' \<mapsto> File ''{"timeout":"60"}'']\<rparr>\<close>

text \<open>A record of two lines, as a pretty-printing writer would leave it.\<close>

definition two_line_client :: client where
  \<open>two_line_client =
     demo_client\<lparr>disk := [''test_configuration_application.txt''
                              \<mapsto> File ''{\<newline>"timeout":"60"}'']\<rparr>\<close>

text \<open>
  The directories of these clients hold no other names than the three below;
  \<^verbatim>\<open>os.listdir\<close> gives those that exist, in this order. Every file can be
  opened for writing.
\<close>

definition list_entries :: "(string \<rightharpoonup> entry) \<Rightarrow> string list" where
  "list_entries d =
     filter (\<lambda>n. d n \<noteq> None)
       [''test_configuration_application.txt'', ''test_configuration_db.txt'',
        ''test_configuration_team_db.txt'']"

text \<open>
  Environments in which every request gets the same answer: a 503, a refused
  connection, a read timeout on a host that still accepts connections.
\<close>

definition env_unavailable :: env where
  "env_unavailable =
     \<lparr>requests_get = (\<lambda>url. Reply \<lparr>status_code = 503, body_json = Inl JSONDecodeError\<rparr>),
      os_listdir = list_entries,
      can_open_w = (\<lambda>p. True)\<rparr>"

definition env_refused :: env where
  "env_refused =
     \<lparr>requests_get = (\<lambda>url. RequestFailed),
      os_listdir = list_entries,
      can_open_w = (\<lambda>p. True)\<rparr>"

definition env_timeout :: env where
  "env_timeout =
     \<lparr>requests_get = (\<lambda>url. ReadTimeout Connected),
      os_listdir = list_entries,
      can_open_w = (\<lambda>p. True)\<rparr>"

text \<open>
  The server's answers: the namespaces \<^verbatim>\<open>application\<close> and \<^verbatim>\<open>db\<close>, and two
  releases that carry the same release key with different configurations.
\<close>

definition namespaces_200 :: response where
  "namespaces_200 =
     \<lparr>status_code = 200,
      body_json = Inr (JArr [JObj [(''namespaceName'', JStr ''application''), (''id'', JInt 1)],
                             JObj [(''namespaceName'', JStr ''db''), (''id'', JInt 2)]])\<rparr>"

definition release_60 :: response where
  \<open>release_60 =
     \<lparr>status_code = 200,
      body_json = Inr (JObj [(''releaseKey'', JStr ''r1''),
                             (''configurations'', JStr ''{"timeout":"60"}'')])\<rparr>\<close>





definition env_application_down :: env where
  "env_application_down =
     \<lparr>requests_get = (\<lambda>url.
        if url = ''http://localhost:8090/apps/test/clusters/default/namespaces''
        then Reply namespaces_200
        else if url = ''http://localhost:8090/apps/test/clusters/default/namespaces/application/releases/latest''
        then RequestFailed
        else Reply release_60),
      os_listdir = list_entries,
      can_open_w = (\<lambda>p. True)\<rparr>"






section \<open>Evaluation and library facts\<close>

lemma loads_timeout_60:
  \<open>json_loads ''{"timeout":"60"}'' = Inr (JObj [(''timeout'', JStr ''60'')])\<close>
  by code_simp


lemma loads_not_json: "json_loads ''not json'' = Inl JSONDecodeError"
  by code_simp

lemma loads_two_lines:
  \<open>json_loads ''{\<newline>"timeout":"60"}'' = Inr (JObj [(''timeout'', JStr ''60'')])\<close>
  \<open>json_loads ''{\<newline>'' = Inl JSONDecodeError\<close>
  by code_simp+

lemma universal_newlines_id: "CR \<notin> set s \<Longrightarrow> universal_newlines s = s"
  by (induction s rule: universal_newlines.induct) auto

lemma readline_id: "LF \<notin> set s \<Longrightarrow> readline s = s"
  by (auto simp: readline_def takeWhile_eq_all_conv)

lemma file_name_application:
  "cache_file_name ''test'' ''application'' = ''test_configuration_application.txt''"
  by (simp add: cache_file_name_def)


lemma warm_urls:
  "namespaces_url warm_client = ''http://localhost:8090/apps/test/clusters/default/namespaces''"
  "release_url (warm_client\<lparr>notification_map := nm\<rparr>) ''application''
     = ''http://localhost:8090/apps/test/clusters/default/namespaces/application/releases/latest''"
  "release_url (warm_client\<lparr>notification_map := nm, cache := c\<rparr>) ''db''
     = ''http://localhost:8090/apps/test/clusters/default/namespaces/db/releases/latest''"
  "release_url warm_client ''application''
     = ''http://localhost:8090/apps/test/clusters/default/namespaces/application/releases/latest''"
  by (simp_all add: namespaces_url_def release_url_def warm_client_def demo_client_def)

subsection \<open>The bound of the decoder\<close>

text \<open>
  Each successful scan consumes input, and beyond twice the length of the text the
  bound on the depth of the descent no longer matters.
\<close>

lemma skip_ws_length: "length (skip_ws s) \<le> length s"
  by (simp add: skip_ws_def length_dropWhile_le)

lemma skip_ws_Cons: "skip_ws s = c # r \<Longrightarrow> length r < length s"
  using skip_ws_length [of s] by simp

lemma cons_chr_Some:
  "cons_chr c x = Some (t, r) \<Longrightarrow> \<exists>t'. x = Some (t', r)"
  by (auto simp: cons_chr_def split: option.splits)

lemma scanstring_consumes: "scanstring s = Some (t, r) \<Longrightarrow> length r < length s"
proof (induction s arbitrary: t rule: scanstring.induct)
  case 1
  then show ?case by simp
next
  case (2 c s)
  show ?case
  proof (cases "c = dquote")
    case True
    with "2.prems" show ?thesis by simp
  next
    case nq: False
    show ?thesis
    proof (cases "c = backslash")
      case False
      with nq "2.prems" obtain t' where "scanstring s = Some (t', r)"
        by (auto split: if_splits dest: cons_chr_Some)
      with "2.IH"(3) [OF nq False] nq False "2.prems" show ?thesis
        by (auto split: if_splits)
    next
      case True
      with nq "2.prems" obtain e s' where s: "s = e # s'"
        by (cases s) auto
      show ?thesis
      proof (cases "e = CHR ''u''")
        case u: True
        with nq True s "2.prems" obtain n t' where "hex4 (take 4 s') = Some n" "n < 256"
          "scanstring (drop 4 s') = Some (t', r)"
          by (auto split: option.splits if_splits dest: cons_chr_Some)
        with "2.IH"(1) [OF nq True s u] have "length r < length (drop 4 s')"
          by blast
        with s show ?thesis by simp
      next
        case nu: False
        with nq True s "2.prems" obtain d t' where "unescape e = Some d"
          "scanstring s' = Some (t', r)"
          by (auto split: option.splits if_splits dest: cons_chr_Some)
        with "2.IH"(2) [OF nq True s nu] have "length r < length s'"
          by blast
        with s show ?thesis by simp
      qed
    qed
  qed
qed

lemma scan_int_consumes: "scan_int s = Some (i, r) \<Longrightarrow> length r < length s"
  by (auto simp: scan_int_def le_imp_less_Suc length_dropWhile_le less_SucI
      split: list.splits if_splits)

lemma scan_frac_length: "scan_frac s = (f, r) \<Longrightarrow> length r \<le> length s"
  by (auto simp: scan_frac_def le_SucI length_dropWhile_le split: list.splits if_splits)

lemma scan_exp_length: "scan_exp s = (x, r) \<Longrightarrow> length r \<le> length s"
  by (auto simp: scan_exp_def le_SucI length_dropWhile_le split: list.splits if_splits)

lemma scan_number_consumes: "scan_number s = Some (v, r) \<Longrightarrow> length r < length s"
proof -
  assume a: "scan_number s = Some (v, r)"
  then obtain i s2 where i: "scan_int s = Some (i, s2)"
    by (auto simp: scan_number_def split: option.splits)
  obtain f s3 where f: "scan_frac s2 = (f, s3)" by (cases "scan_frac s2")
  obtain x s4 where x: "scan_exp s3 = (x, s4)" by (cases "scan_exp s3")
  from a i f x have "r = s4" by (simp add: scan_number_def)
  with scan_int_consumes [OF i] scan_frac_length [OF f] scan_exp_length [OF x]
  show ?thesis by simp
qed

lemma parse_consumes_all:
  "(\<forall>s v r. parse_value n s = Some (v, r) \<longrightarrow> length r < length s)
   \<and> (\<forall>s acc v r. parse_elements n s acc = Some (v, r) \<longrightarrow> length r < length s)
   \<and> (\<forall>s acc v r. parse_members n s acc = Some (v, r) \<longrightarrow> length r < length s)"
proof (induction n)
  case 0
  show ?case by simp
next
  case (Suc n)
  have val: "length r < length s" if "parse_value n s = Some (v, r)" for s v r
    using Suc that by blast
  have els: "length r < length s" if "parse_elements n s acc = Some (v, r)" for s acc v r
    using Suc that by blast
  have mem: "length r < length s" if "parse_members n s acc = Some (v, r)" for s acc v r
    using Suc that by blast
  have "length r < length s" if p: "parse_value (Suc n) s = Some (v, r)" for s v r
  proof (cases s)
    case Nil
    with p show ?thesis by simp
  next
    case (Cons c t)
    consider (str) "c = dquote"
      | (obj) "c \<noteq> dquote" "c = CHR ''{''"
      | (arr) "c \<noteq> dquote" "c \<noteq> CHR ''{''" "c = CHR ''[''"
      | (other) "c \<noteq> dquote" "c \<noteq> CHR ''{''" "c \<noteq> CHR ''[''"
      by blast
    then show ?thesis
    proof cases
      case str
      with p Cons obtain x where "scanstring t = Some (x, r)"
        by (auto split: option.splits)
      from scanstring_consumes [OF this] Cons show ?thesis by simp
    next
      case obj
      with p Cons obtain c' t' where sk: "skip_ws t = c' # t'"
        by (cases "skip_ws t") auto
      from skip_ws_Cons [OF sk] have lt: "length t' < length t" .
      from p Cons obj sk have "parse_members n t' [] = Some (v, r) \<or> r = t'"
        by (auto split: if_splits)
      with mem lt Cons show ?thesis by (auto dest: mem)
    next
      case arr
      with p Cons obtain c' t' where sk: "skip_ws t = c' # t'"
        by (cases "skip_ws t") auto
      from skip_ws_Cons [OF sk] have lt: "length t' < length t" .
      from p Cons arr sk have "parse_elements n (c' # t') [] = Some (v, r) \<or> r = t'"
        by (auto split: if_splits)
      with lt Cons show ?thesis by (auto dest: els)
    next
      case other
      with p Cons have "r = drop 4 s \<or> r = drop 5 s \<or> r = drop 3 s \<or> r = drop 8 s
          \<or> r = drop 9 s \<or> scan_number s = Some (v, r)"
        by (auto split: if_splits option.splits)
      with Cons show ?thesis by (auto dest: scan_number_consumes)
    qed
  qed
  moreover have "length r < length s" if p: "parse_elements (Suc n) s acc = Some (v, r)"
    for s acc v r
  proof -
    from p obtain w t where w: "parse_value n s = Some (w, t)"
      by (auto split: option.splits)
    from val [OF w] have lt: "length t < length s" .
    from p w obtain c t' where sk: "skip_ws t = c # t'"
      by (cases "skip_ws t") auto
    from skip_ws_Cons [OF sk] have lt': "length t' < length t" .
    from p w sk have "r = t' \<or> parse_elements n (skip_ws t') (acc @ [w]) = Some (v, r)"
      by (auto split: if_splits)
    then show ?thesis
    proof
      assume "r = t'"
      with lt lt' show ?thesis by simp
    next
      assume "parse_elements n (skip_ws t') (acc @ [w]) = Some (v, r)"
      from els [OF this] skip_ws_length [of t'] lt lt' show ?thesis by simp
    qed
  qed
  moreover have "length r < length s" if p: "parse_members (Suc n) s acc = Some (v, r)"
    for s acc v r
  proof -
    from p obtain k t where k: "scanstring s = Some (k, t)"
      by (auto split: option.splits)
    from scanstring_consumes [OF k] have lt: "length t < length s" .
    from p k obtain c t1 where sk: "skip_ws t = c # t1"
      by (cases "skip_ws t") auto
    from skip_ws_Cons [OF sk] have lt1: "length t1 < length t" .
    from p k sk obtain w t2 where w: "parse_value n (skip_ws t1) = Some (w, t2)"
      by (auto split: if_splits option.splits)
    from val [OF w] skip_ws_length [of t1] have lt2: "length t2 < length t1" by simp
    from p k sk w obtain c2 t3 where sk2: "skip_ws t2 = c2 # t3"
      by (cases "skip_ws t2") (auto split: if_splits)
    from skip_ws_Cons [OF sk2] have lt3: "length t3 < length t2" .
    from p k sk w sk2 have "r = t3
        \<or> (\<exists>c3 t4. skip_ws t3 = c3 # t4
              \<and> parse_members n t4 (AList.update k w acc) = Some (v, r))"
      by (cases "skip_ws t3") (auto split: if_splits)
    then show ?thesis
    proof
      assume "r = t3"
      with lt lt1 lt2 lt3 show ?thesis by simp
    next
      assume "\<exists>c3 t4. skip_ws t3 = c3 # t4
              \<and> parse_members n t4 (AList.update k w acc) = Some (v, r)"
      then obtain c3 t4 where sk3: "skip_ws t3 = c3 # t4"
        and m: "parse_members n t4 (AList.update k w acc) = Some (v, r)" by blast
      from mem [OF m] skip_ws_Cons [OF sk3] lt lt1 lt2 lt3 show ?thesis by simp
    qed
  qed
  ultimately show ?case by blast
qed

lemma parse_value_consumes: "parse_value n s = Some (v, r) \<Longrightarrow> length r < length s"
  using parse_consumes_all [of n] by blast

lemma parse_value_step:
  assumes "\<And>x acc. length x + 2 \<le> length s \<Longrightarrow> parse_members m x acc = parse_members k x acc"
    and "\<And>x acc. length x < length s \<Longrightarrow> parse_elements m x acc = parse_elements k x acc"
  shows "parse_value (Suc m) s = parse_value (Suc k) s"
proof (cases s)
  case Nil
  then show ?thesis by simp
next
  case (Cons c t)
  show ?thesis
  proof (cases "skip_ws t")
    case Nil
    with Cons show ?thesis by simp
  next
    case sk: (Cons c' t')
    from skip_ws_Cons [OF sk] Cons have "length t' + 2 \<le> length s" by simp
    then have m: "parse_members m t' [] = parse_members k t' []" by (rule assms(1))
    from skip_ws_length [of t] sk Cons have "length (c' # t') < length s" by simp
    then have e: "parse_elements m (c' # t') [] = parse_elements k (c' # t') []"
      by (rule assms(2))
    from Cons sk m e show ?thesis by simp
  qed
qed

lemma parse_elements_step:
  assumes "parse_value m s = parse_value k s"
    and "\<And>x acc. length x + 2 \<le> length s \<Longrightarrow> parse_elements m x acc = parse_elements k x acc"
  shows "parse_elements (Suc m) s acc = parse_elements (Suc k) s acc"
proof (cases "parse_value k s")
  case None
  with assms(1) show ?thesis by simp
next
  case (Some p)
  obtain v r where p: "p = (v, r)" by (cases p)
  with Some have v: "parse_value k s = Some (v, r)" by simp
  from parse_value_consumes [OF v] have lt: "length r < length s" .
  show ?thesis
  proof (cases "skip_ws r")
    case Nil
    with assms(1) v show ?thesis by simp
  next
    case (Cons c r')
    from skip_ws_Cons [OF Cons] lt skip_ws_length [of r']
    have "length (skip_ws r') + 2 \<le> length s" by simp
    then have "parse_elements m (skip_ws r') (acc @ [v]) = parse_elements k (skip_ws r') (acc @ [v])"
      by (rule assms(2))
    with assms(1) v Cons show ?thesis by simp
  qed
qed

lemma parse_members_step:
  assumes "\<And>x. length x + 2 \<le> length s \<Longrightarrow> parse_value m x = parse_value k x"
    and "\<And>x acc. length x + 2 \<le> length s \<Longrightarrow> parse_members m x acc = parse_members k x acc"
  shows "parse_members (Suc m) s acc = parse_members (Suc k) s acc"
proof (cases "scanstring s")
  case None
  then show ?thesis by simp
next
  case (Some p)
  obtain key t where "p = (key, t)" by (cases p)
  with Some have key: "scanstring s = Some (key, t)" by simp
  from scanstring_consumes [OF key] have lt: "length t < length s" .
  show ?thesis
  proof (cases "skip_ws t")
    case Nil
    with key show ?thesis by simp
  next
    case sk: (Cons c t1)
    from skip_ws_Cons [OF sk] lt skip_ws_length [of t1]
    have b1: "length (skip_ws t1) + 2 \<le> length s" by simp
    then have pv: "parse_value m (skip_ws t1) = parse_value k (skip_ws t1)" by (rule assms(1))
    show ?thesis
    proof (cases "parse_value k (skip_ws t1)")
      case None
      with key sk pv show ?thesis by simp
    next
      case (Some q)
      obtain v t2 where "q = (v, t2)" by (cases q)
      with Some have v: "parse_value k (skip_ws t1) = Some (v, t2)" by simp
      from parse_value_consumes [OF v] have lt2: "length t2 < length (skip_ws t1)" .
      show ?thesis
      proof (cases "skip_ws t2")
        case Nil
        with key sk pv v show ?thesis by simp
      next
        case sk2: (Cons c2 t3)
        show ?thesis
        proof (cases "skip_ws t3")
          case Nil
          with key sk pv v sk2 show ?thesis by simp
        next
          case sk3: (Cons c3 t4)
          from skip_ws_Cons [OF sk3] skip_ws_Cons [OF sk2] lt2 b1
          have "length t4 + 2 \<le> length s" by simp
          then have "parse_members m t4 (AList.update key v acc)
              = parse_members k t4 (AList.update key v acc)"
            by (rule assms(2))
          with key sk pv v sk2 sk3 show ?thesis by simp
        qed
      qed
    qed
  qed
qed

lemma parse_fuel_step:
  "(\<forall>s. 2 * length s + 1 \<le> n \<longrightarrow> parse_value (Suc n) s = parse_value n s)
   \<and> (\<forall>s acc. 2 * length s + 2 \<le> n \<longrightarrow> parse_elements (Suc n) s acc = parse_elements n s acc)
   \<and> (\<forall>s acc. 2 * length s + 2 \<le> n \<longrightarrow> parse_members (Suc n) s acc = parse_members n s acc)"
proof (induction n)
  case 0
  show ?case by simp
next
  case (Suc n)
  have V: "parse_value (Suc n) s = parse_value n s" if "2 * length s + 1 \<le> n" for s
    using Suc that by blast
  have E: "parse_elements (Suc n) s acc = parse_elements n s acc" if "2 * length s + 2 \<le> n"
    for s acc
    using Suc that by blast
  have M: "parse_members (Suc n) s acc = parse_members n s acc" if "2 * length s + 2 \<le> n"
    for s acc
    using Suc that by blast
  have "parse_value (Suc (Suc n)) s = parse_value (Suc n) s" if b: "2 * length s + 1 \<le> Suc n"
    for s
  proof (rule parse_value_step)
    fix x :: string and acc :: "(string \<times> json) list"
    assume "length x + 2 \<le> length s"
    with b show "parse_members (Suc n) x acc = parse_members n x acc"
      by (intro M) simp
  next
    fix x :: string and acc :: "json list"
    assume "length x < length s"
    with b show "parse_elements (Suc n) x acc = parse_elements n x acc"
      by (intro E) simp
  qed
  moreover have "parse_elements (Suc (Suc n)) s acc = parse_elements (Suc n) s acc"
    if b: "2 * length s + 2 \<le> Suc n" for s acc
  proof (rule parse_elements_step)
    from b show "parse_value (Suc n) s = parse_value n s"
      by (intro V) simp
  next
    fix x :: string and acc :: "json list"
    assume "length x + 2 \<le> length s"
    with b show "parse_elements (Suc n) x acc = parse_elements n x acc"
      by (intro E) simp
  qed
  moreover have "parse_members (Suc (Suc n)) s acc = parse_members (Suc n) s acc"
    if b: "2 * length s + 2 \<le> Suc n" for s acc
  proof (rule parse_members_step)
    fix x :: string
    assume "length x + 2 \<le> length s"
    with b show "parse_value (Suc n) x = parse_value n x"
      by (intro V) simp
  next
    fix x :: string and acc :: "(string \<times> json) list"
    assume "length x + 2 \<le> length s"
    with b show "parse_members (Suc n) x acc = parse_members n x acc"
      by (intro M) simp
  qed
  ultimately show ?case by blast
qed

lemma parse_value_fuel:
  "2 * length s + 1 \<le> n \<Longrightarrow> parse_value n s = parse_value (2 * length s + 1) s"
proof (induction n rule: dec_induct)
  case base
  show ?case by simp
next
  case (step n)
  with parse_fuel_step [of n] show ?case by simp
qed

lemma json_loads_fuel:
  assumes "2 * length s + 2 \<le> n"
  shows "json_loads s =
           (case parse_value n (skip_ws s) of
              None \<Rightarrow> Inl JSONDecodeError
            | Some (v, r) \<Rightarrow> if skip_ws r = [] then Inr v else Inl JSONDecodeError)"
proof -
  have "2 * length (skip_ws s) + 1 \<le> 2 * length s + 2"
    using skip_ws_length [of s] by simp
  with assms have "parse_value n (skip_ws s) = parse_value (2 * length s + 2) (skip_ws s)"
    using parse_value_fuel [of "skip_ws s" n] parse_value_fuel [of "skip_ws s" "2 * length s + 2"]
    by simp
  then show ?thesis by (simp add: json_loads_def)
qed

subsection \<open>Splitting file names\<close>

lemma str_split_not_Nil: "str_split sep s \<noteq> []"
  by (induction s) (auto split: list.splits)

lemma str_split_no_sep: "sep \<notin> set s \<Longrightarrow> str_split sep s = [s]"
  by (induction s) auto

lemma str_split_sep_two: "\<exists>t u us. str_split sep (a @ sep # b) = t # u # us"
proof (induction a)
  case Nil
  obtain u us where "str_split sep b = u # us"
    using str_split_not_Nil [of sep b] by (cases "str_split sep b") auto
  then show ?case by simp
next
  case (Cons c a)
  then obtain t u us where "str_split sep (a @ sep # b) = t # u # us" by blast
  then show ?case by simp
qed

lemma last_str_split_append: "last (str_split sep (a @ sep # b)) = last (str_split sep b)"
proof (induction a)
  case Nil
  show ?case by (simp add: str_split_not_Nil)
next
  case (Cons c a)
  obtain t u us where "str_split sep (a @ sep # b) = t # u # us"
    using str_split_sep_two by blast
  with Cons show ?case by simp
qed

lemma rfind_txt: "rfind (pre @ ''.txt'') (CHR ''.'') = int (length pre)"
  by (simp add: rfind_def)

lemma splitext_txt:
  assumes "CHR ''/'' \<notin> set pre" and "\<exists>c \<in> set pre. c \<noteq> CHR ''.''"
  shows "splitext (pre @ ''.txt'') = (pre, ''.txt'')"
proof -
  have "rfind (pre @ ''.txt'') (CHR ''/'') = - 1"
    using assms(1) by (simp add: rfind_def)
  then show ?thesis
    using assms(2) by (simp add: splitext_def rfind_txt list_ex_iff)
qed

lemma file_namespace_cache_file_name:
  assumes "CHR ''/'' \<notin> set app \<union> set namespace"
  shows "file_namespace (cache_file_name app namespace) = last (str_split (CHR ''_'') namespace)"
    and "snd (splitext (cache_file_name app namespace)) = ''.txt''"
proof -
  let ?pre = "app @ ''_configuration_'' @ namespace"
  have "splitext (?pre @ ''.txt'') = (?pre, ''.txt'')"
    using assms by (intro splitext_txt) auto
  then have sp: "splitext (cache_file_name app namespace) = (?pre, ''.txt'')"
    by (simp add: cache_file_name_def)
  have "?pre = (app @ ''_configuration'') @ CHR ''_'' # namespace"
    by simp
  then have "last (str_split (CHR ''_'') ?pre) = last (str_split (CHR ''_'') namespace)"
    by (simp only: last_str_split_append)
  with sp show "file_namespace (cache_file_name app namespace) = last (str_split (CHR ''_'') namespace)"
    by (simp add: file_namespace_def)
  from sp show "snd (splitext (cache_file_name app namespace)) = ''.txt''"
    by simp
qed

lemma splitext_application:
  "splitext ''test_configuration_application.txt'' = (''test_configuration_application'', ''.txt'')"
  using splitext_txt [of "''test_configuration_application''"] by simp

lemma splitext_db:
  "splitext ''test_configuration_db.txt'' = (''test_configuration_db'', ''.txt'')"
  using splitext_txt [of "''test_configuration_db''"] by simp



lemma file_namespace_db: "file_namespace ''test_configuration_db.txt'' = ''db''"
  using file_namespace_cache_file_name(1) [of "''test''" "''db''"]
  by (simp add: cache_file_name_def str_split_no_sep)


lemma cache_file_name_inject [simp]:
  "cache_file_name app m = cache_file_name app n \<longleftrightarrow> m = n"
  by (simp add: cache_file_name_def)

section \<open>Namespace discovery\<close>

text \<open>
  C3, as the code has it. For every response whose status is not 200, the
  namespace listing returns the sentinel \<^verbatim>\<open>{"application": -1}\<close>. A transport
  failure is not turned into the sentinel: whatever the HTTP layer raises leaves
  \<open>get_namespaces\<close> as it is.
\<close>

theorem get_namespaces_non_200:
  "(http_get env (namespaces_url self) = Inr r \<and> status_code r \<noteq> 200
      \<longrightarrow> get_namespaces env self = Inr [(''application'', JInt (- 1))])
   \<and> (http_get env (namespaces_url self) = Inl e \<longrightarrow> get_namespaces env self = Inl e)"
  by (simp add: get_namespaces_def)

text \<open>The two cases at work: a 503, and a read timeout.\<close>

theorem get_namespaces_non_200_witness:
  "get_namespaces env_unavailable demo_client = Inr [(''application'', JInt (- 1))]
   \<and> get_namespaces env_timeout demo_client = Inl NameSpaceNotFoundException"
proof -
  have a: "http_get env_unavailable (namespaces_url demo_client)
             = Inr \<lparr>status_code = 503, body_json = Inl JSONDecodeError\<rparr>"
    by (simp add: http_get_def env_unavailable_def)
  have b: "http_get env_timeout (namespaces_url demo_client) = Inl NameSpaceNotFoundException"
    by (simp add: http_get_def env_timeout_def)
  from get_namespaces_non_200 [of env_unavailable demo_client
         "\<lparr>status_code = 503, body_json = Inl JSONDecodeError\<rparr>" e] a
  have "get_namespaces env_unavailable demo_client = Inr [(''application'', JInt (- 1))]"
    by simp
  moreover from get_namespaces_non_200 [of env_timeout demo_client r NameSpaceNotFoundException] b
  have "get_namespaces env_timeout demo_client = Inl NameSpaceNotFoundException"
    by simp
  ultimately show ?thesis by simp
qed

text \<open>
  C3 as stated fails: when the connection to the server fails, the listing raises
  instead of returning the sentinel.
\<close>

theorem get_namespaces_transport_failure_raises:
  "requests_get env_refused (namespaces_url demo_client) = RequestFailed
   \<and> get_namespaces env_refused demo_client = Inl RequestException"
  by (simp add: get_namespaces_def http_get_def env_refused_def)

lemma namespaces_dict_distinct:
  "distinct (map fst acc) \<Longrightarrow> namespaces_dict xs acc = Inr r \<Longrightarrow> distinct (map fst r)"
proof (induction xs arbitrary: acc)
  case Nil
  then show ?case by simp
next
  case (Cons x xs)
  from Cons.prems(2) obtain n ident where "namespaces_dict xs (AList.update n ident acc) = Inr r"
    by (auto split: sum.splits json.splits)
  moreover have "distinct (map fst (AList.update n ident acc))"
    using Cons.prems(1) by (rule distinct_update)
  ultimately show ?case by (rule Cons.IH [rotated])
qed

lemma get_namespaces_distinct:
  "get_namespaces env self = Inr namespaces \<Longrightarrow> distinct (map fst namespaces)"
  by (auto simp: get_namespaces_def dest: namespaces_dict_distinct [rotated]
      split: sum.splits if_splits)

section \<open>The public read\<close>



text \<open>
  Outside that type the read is not safe: a cached value that is not a mapping has
  no \<^verbatim>\<open>get\<close>, and the handler catches \<^verbatim>\<open>BasicException\<close> only.
\<close>

lemma get_value_non_mapping:
  "cache self namespace = Some (JArr xs)
     \<Longrightarrow> get_value key default_val namespace self = Inl AttributeError"
  by (simp add: get_value_def py_get_def is_BasicException_def)

section \<open>The local cache files\<close>

text \<open>
  C6. \<open>update_local_cache\<close> called with the release key recorded for the
  namespace changes nothing: no file is written. Called twice with the same release
  key and text on a namespace whose recorded key is another one (and whose file can
  be opened), the first call writes the file, the second returns the state
  unchanged, and the log of writes has grown by exactly one entry.
\<close>

theorem update_local_cache_release_key_gate:
  "(hash self namespace = Some release_key
      \<longrightarrow> update_local_cache env release_key data namespace self = Return self)
   \<and> (hash self namespace \<noteq> Some (JStr key)
        \<and> can_open_w env (cache_file_name (app_id self) namespace)
        \<and> disk self (cache_file_name (app_id self) namespace) \<noteq> Some Directory
      \<longrightarrow> (\<exists>s1. update_local_cache env (JStr key) (JStr text) namespace self = Return s1
                \<and> update_local_cache env (JStr key) (JStr text) namespace s1 = Return s1
                \<and> write_log s1 = write_log self @ [(cache_file_name (app_id self) namespace, text)]))"
  by (auto simp: update_local_cache_def Let_def split: option.splits)

text \<open>A client that has written \<^verbatim>\<open>r1\<close>, and one that has written nothing.\<close>

theorem update_local_cache_release_key_gate_witness:
  \<open>hash cached_client ''application'' = Some (JStr ''r1'')
   \<and> update_local_cache env_unavailable (JStr ''r1'') (JStr ''{"timeout":"60"}'') ''application''
       cached_client = Return cached_client
   \<and> hash demo_client ''application'' \<noteq> Some (JStr ''r1'')
   \<and> can_open_w env_unavailable (cache_file_name (app_id demo_client) ''application'')
   \<and> disk demo_client (cache_file_name (app_id demo_client) ''application'') \<noteq> Some Directory
   \<and> (\<exists>s1. update_local_cache env_unavailable (JStr ''r1'') (JStr ''{"timeout":"60"}'')
               ''application'' demo_client = Return s1
            \<and> update_local_cache env_unavailable (JStr ''r1'') (JStr ''{"timeout":"60"}'')
                ''application'' s1 = Return s1
            \<and> write_log s1 = write_log demo_client
                 @ [(cache_file_name (app_id demo_client) ''application'', ''{"timeout":"60"}'')])\<close>
proof -
  have h1: "hash cached_client ''application'' = Some (JStr ''r1'')"
    by (simp add: cached_client_def)
  have h2: "hash demo_client ''application'' \<noteq> Some (JStr ''r1'')
      \<and> can_open_w env_unavailable (cache_file_name (app_id demo_client) ''application'')
      \<and> disk demo_client (cache_file_name (app_id demo_client) ''application'') \<noteq> Some Directory"
    by (simp add: demo_client_def env_unavailable_def)
  show ?thesis
    using h1 h2
      update_local_cache_release_key_gate [where self = cached_client
        and namespace = "''application''" and release_key = "JStr ''r1''"]
      update_local_cache_release_key_gate [where self = demo_client
        and namespace = "''application''" and key = "''r1''" and env = env_unavailable]
    by blast
qed

text \<open>
  C8, as the code has it. \<open>get_local_cache_by_namespace\<close> returns the empty
  mapping when there is no regular file for the namespace. When there is one, the
  result is whatever decoding its first line gives: in particular a first line
  that is not JSON makes the decoder's exception leave the function.
\<close>

theorem get_local_cache_by_namespace_outcomes:
  "(\<not> isfile (disk self) (cache_file_name (app_id self) namespace)
      \<longrightarrow> get_local_cache_by_namespace namespace self = Inr (JObj []))
   \<and> (disk self (cache_file_name (app_id self) namespace) = Some (File content)
      \<longrightarrow> get_local_cache_by_namespace namespace self
            = json_loads (readline (universal_newlines content)))
   \<and> (disk self (cache_file_name (app_id self) namespace) = Some (File content)
        \<and> json_loads (readline (universal_newlines content)) = Inl e
      \<longrightarrow> get_local_cache_by_namespace namespace self = Inl e)"
  by (simp add: get_local_cache_by_namespace_def isfile_def file_read_def Let_def)

text \<open>No file, a file that decodes, and no file for another namespace.\<close>

theorem get_local_cache_by_namespace_outcomes_witness:
  \<open>get_local_cache_by_namespace ''application'' demo_client = Inr (JObj [])
   \<and> get_local_cache_by_namespace ''application'' cached_client
       = Inr (JObj [(''timeout'', JStr ''60'')])
   \<and> get_local_cache_by_namespace ''db'' broken_client = Inr (JObj [])\<close>
proof -
  have a: "\<not> isfile (disk demo_client) (cache_file_name (app_id demo_client) ''application'')"
    by (simp add: isfile_def demo_client_def)
  have b: \<open>disk cached_client (cache_file_name (app_id cached_client) ''application'')
             = Some (File ''{"timeout":"60"}'')\<close>
    by (simp add: cached_client_def demo_client_def file_name_application)
  have c: \<open>readline (universal_newlines ''{"timeout":"60"}'') = ''{"timeout":"60"}''\<close>
    by (simp add: universal_newlines_id readline_id CR_def LF_def)
  have d: "\<not> isfile (disk broken_client) (cache_file_name (app_id broken_client) ''db'')"
    by (simp add: isfile_def broken_client_def demo_client_def cache_file_name_def)
  show ?thesis
    using a b c d loads_timeout_60
      get_local_cache_by_namespace_outcomes [where self = demo_client and namespace = "''application''"]
      get_local_cache_by_namespace_outcomes [where self = cached_client and namespace = "''application''"
        and content = \<open>''{"timeout":"60"}''\<close>]
      get_local_cache_by_namespace_outcomes [where self = broken_client and namespace = "''db''"]
    by simp
qed

text \<open>
  C8 as stated fails: a record that cannot be parsed is not reported as absent,
  the parse error reaches the caller.
\<close>

theorem get_local_cache_by_namespace_unparseable_raises:
  "disk broken_client (cache_file_name (app_id broken_client) ''application'') = Some (File ''not json'')
   \<and> get_local_cache_by_namespace ''application'' broken_client = Inl JSONDecodeError"
  by (simp add: get_local_cache_by_namespace_def isfile_def file_read_def Let_def
      broken_client_def demo_client_def file_name_application
      universal_newlines_id readline_id CR_def LF_def loads_not_json)

section \<open>Cold-start recovery\<close>

lemma read_files_step:
  "read_files (f # rest) self =
     (if scanned (disk self) f
      then (case json_loads (file_read (disk self) f) of
              Inl e \<Rightarrow> Raise e self
            | Inr v \<Rightarrow> read_files rest (self\<lparr>cache := (cache self)(file_namespace f \<mapsto> v)\<rparr>))
      else read_files rest self)"
  by (cases "splitext f") (auto simp: scanned_def file_namespace_def split: sum.splits)

declare read_files.simps(2) [simp del]

lemma read_files_disk: "disk (final (read_files xs s)) = disk s"
proof (induction xs arbitrary: s)
  case Nil
  show ?case by (simp add: final_def)
next
  case (Cons f xs)
  show ?case
  proof (cases "scanned (disk s) f")
    case False
    then show ?thesis using Cons [of s] by (simp add: read_files_step)
  next
    case True
    show ?thesis
    proof (cases "json_loads (file_read (disk s) f)")
      case (Inl e)
      with True show ?thesis by (simp add: read_files_step final_def)
    next
      case (Inr v)
      with True show ?thesis
        using Cons [of "s\<lparr>cache := (cache s)(file_namespace f \<mapsto> v)\<rparr>"]
        by (simp add: read_files_step)
    qed
  qed
qed

lemma read_files_append:
  "read_files (xs @ ys) s =
     (case read_files xs s of Return s' \<Rightarrow> read_files ys s' | Raise e s' \<Rightarrow> Raise e s')"
proof (induction xs arbitrary: s)
  case Nil
  show ?case by simp
next
  case (Cons f xs)
  show ?case
    by (simp add: read_files_step Cons split: sum.splits)
qed

lemma read_files_all_parse:
  "\<forall>f \<in> set xs. scanned (disk s) f \<longrightarrow> parses (disk s) f \<Longrightarrow> \<exists>s'. read_files xs s = Return s'"
proof (induction xs arbitrary: s)
  case Nil
  show ?case by simp
next
  case (Cons f xs)
  show ?case
  proof (cases "scanned (disk s) f")
    case False
    then show ?thesis using Cons.IH [of s] Cons.prems by (simp add: read_files_step)
  next
    case True
    with Cons.prems obtain v where v: "json_loads (file_read (disk s) f) = Inr v"
      by (auto simp: parses_def split: sum.splits)
    have "\<exists>s'. read_files xs (s\<lparr>cache := (cache s)(file_namespace f \<mapsto> v)\<rparr>) = Return s'"
      using Cons.prems by (intro Cons.IH) simp
    with True v show ?thesis by (simp add: read_files_step)
  qed
qed

lemma read_files_cache_other:
  "\<forall>f \<in> set xs. scanned (disk s) f \<longrightarrow> file_namespace f \<noteq> k
     \<Longrightarrow> cache (final (read_files xs s)) k = cache s k"
proof (induction xs arbitrary: s)
  case Nil
  show ?case by (simp add: final_def)
next
  case (Cons f xs)
  show ?case
  proof (cases "scanned (disk s) f")
    case False
    then show ?thesis using Cons.IH [of s] Cons.prems by (simp add: read_files_step)
  next
    case True
    show ?thesis
    proof (cases "json_loads (file_read (disk s) f)")
      case (Inl e)
      with True show ?thesis by (simp add: read_files_step final_def)
    next
      case (Inr v)
      have "cache (final (read_files xs (s\<lparr>cache := (cache s)(file_namespace f \<mapsto> v)\<rparr>))) k
              = cache (s\<lparr>cache := (cache s)(file_namespace f \<mapsto> v)\<rparr>) k"
        using Cons.prems by (intro Cons.IH) simp
      with True Inr Cons.prems show ?thesis by (auto simp: read_files_step)
    qed
  qed
qed

lemma read_files_first_bad:
  assumes "\<forall>f \<in> set pre. scanned (disk s) f \<longrightarrow> parses (disk s) f"
    and "scanned (disk s) bad"
    and "json_loads (file_read (disk s) bad) = Inl e"
  shows "read_files (pre @ bad # post) s = Raise e (final (read_files pre s))"
proof -
  obtain s0 where s0: "read_files pre s = Return s0"
    using read_files_all_parse [OF assms(1)] by blast
  have "disk s0 = disk s"
    using read_files_disk [of pre s] s0 by (simp add: final_def)
  with assms(2,3) have "read_files (bad # post) s0 = Raise e s0"
    by (simp add: read_files_step)
  with s0 show ?thesis by (simp add: read_files_append final_def)
qed

lemma read_files_loaded:
  assumes "read_files (pre @ f # post) s = Return s'"
    and "scanned (disk s) f"
    and "\<forall>g \<in> set post. scanned (disk s) g \<longrightarrow> file_namespace g \<noteq> file_namespace f"
  shows "\<exists>v. json_loads (file_read (disk s) f) = Inr v \<and> cache s' (file_namespace f) = Some v"
proof -
  obtain s0 where s0: "read_files pre s = Return s0" and rest: "read_files (f # post) s0 = Return s'"
    using assms(1) by (auto simp: read_files_append split: outcome.splits)
  have d0: "disk s0 = disk s"
    using read_files_disk [of pre s] s0 by (simp add: final_def)
  obtain v where v: "json_loads (file_read (disk s) f) = Inr v"
    and post: "read_files post (s0\<lparr>cache := (cache s0)(file_namespace f \<mapsto> v)\<rparr>) = Return s'"
    using rest assms(2) d0 by (auto simp: read_files_step split: sum.splits)
  have "cache (final (read_files post (s0\<lparr>cache := (cache s0)(file_namespace f \<mapsto> v)\<rparr>)))
          (file_namespace f)
        = cache (s0\<lparr>cache := (cache s0)(file_namespace f \<mapsto> v)\<rparr>) (file_namespace f)"
    using assms(3) d0 by (intro read_files_cache_other) simp
  with post have "cache s' (file_namespace f) = Some v"
    by (simp add: final_def)
  with v show ?thesis by blast
qed

lemma mixed_client_files:
  "file_read (disk mixed_client) ''test_configuration_application.txt'' = ''not json''"
  \<open>file_read (disk mixed_client) ''test_configuration_db.txt'' = ''{"timeout":"60"}''\<close>
  "scanned (disk mixed_client) ''test_configuration_application.txt''"
  by (simp_all add: file_read_def scanned_def isfile_def mixed_client_def demo_client_def
      splitext_application CR_def LF_def)

lemma db_client_files:
  \<open>file_read (disk db_client) ''test_configuration_db.txt'' = ''{"timeout":"60"}''\<close>
  "scanned (disk db_client) ''test_configuration_db.txt''"
  "\<not> scanned (disk db_client) ''test_configuration_application.txt''"
  by (simp_all add: file_read_def scanned_def isfile_def db_client_def demo_client_def
      splitext_db CR_def LF_def)

lemma mixed_client_scan:
  "read_from_local_cache_file env_refused mixed_client = Raise JSONDecodeError mixed_client"
proof -
  have "os_listdir env_refused (disk mixed_client)
          = [''test_configuration_application.txt'', ''test_configuration_db.txt'']"
    by (simp add: env_refused_def list_entries_def mixed_client_def demo_client_def)
  then show ?thesis
    by (simp add: read_from_local_cache_file_def read_files_step mixed_client_files loads_not_json)
qed

text \<open>
  C7, as the code has it. The scan opens the regular files of the directory in the
  order of the listing, leaving out those with extension \<^verbatim>\<open>.swp\<close>. When each
  of them parses, the scan returns, and every record is in the cache under the key
  of its file name unless a record listed later has the same key. The first file
  that does not parse makes the scan raise the decoder's exception: the records
  listed before it are loaded, the ones after it are not.
\<close>

theorem read_from_local_cache_file_scan:
  "((\<forall>f \<in> set (os_listdir env (disk self)). scanned (disk self) f \<longrightarrow> parses (disk self) f)
      \<longrightarrow> (\<exists>s'. read_from_local_cache_file env self = Return s'
             \<and> (\<forall>pre f post.
                   os_listdir env (disk self) = pre @ f # post \<and> scanned (disk self) f
                   \<and> (\<forall>g \<in> set post. scanned (disk self) g \<longrightarrow> file_namespace g \<noteq> file_namespace f)
                   \<longrightarrow> (\<exists>v. json_loads (file_read (disk self) f) = Inr v
                           \<and> cache s' (file_namespace f) = Some v))))
   \<and> (os_listdir env (disk self) = pre @ bad # post
        \<and> (\<forall>f \<in> set pre. scanned (disk self) f \<longrightarrow> parses (disk self) f)
        \<and> scanned (disk self) bad
        \<and> json_loads (file_read (disk self) bad) = Inl e
      \<longrightarrow> read_from_local_cache_file env self = Raise e (final (read_files pre self)))"
proof (intro conjI impI)
  assume all: "\<forall>f \<in> set (os_listdir env (disk self)). scanned (disk self) f \<longrightarrow> parses (disk self) f"
  then obtain s' where s': "read_files (os_listdir env (disk self)) self = Return s'"
    using read_files_all_parse by blast
  have "\<exists>v. json_loads (file_read (disk self) f) = Inr v \<and> cache s' (file_namespace f) = Some v"
    if "os_listdir env (disk self) = pre @ f # post" and "scanned (disk self) f"
      and "\<forall>g \<in> set post. scanned (disk self) g \<longrightarrow> file_namespace g \<noteq> file_namespace f"
    for pre f post
    using read_files_loaded [of pre f post self s'] s' that by simp
  with s' show "\<exists>s'. read_from_local_cache_file env self = Return s'
             \<and> (\<forall>pre f post.
                   os_listdir env (disk self) = pre @ f # post \<and> scanned (disk self) f
                   \<and> (\<forall>g \<in> set post. scanned (disk self) g \<longrightarrow> file_namespace g \<noteq> file_namespace f)
                   \<longrightarrow> (\<exists>v. json_loads (file_read (disk self) f) = Inr v
                           \<and> cache s' (file_namespace f) = Some v))"
    by (auto simp: read_from_local_cache_file_def)
next
  assume "os_listdir env (disk self) = pre @ bad # post
        \<and> (\<forall>f \<in> set pre. scanned (disk self) f \<longrightarrow> parses (disk self) f)
        \<and> scanned (disk self) bad
        \<and> json_loads (file_read (disk self) bad) = Inl e"
  then show "read_from_local_cache_file env self = Raise e (final (read_files pre self))"
    using read_files_first_bad [of pre self bad e post]
    by (simp add: read_from_local_cache_file_def)
qed

text \<open>A directory with one good record, and one whose first record is broken.\<close>

theorem read_from_local_cache_file_scan_witness:
  "raised (read_from_local_cache_file env_refused db_client) = None
   \<and> cache (final (read_from_local_cache_file env_refused db_client)) ''db''
       = Some (JObj [(''timeout'', JStr ''60'')])
   \<and> read_from_local_cache_file env_refused mixed_client = Raise JSONDecodeError mixed_client"
proof -
  let ?app = "''test_configuration_application.txt''" and ?db = "''test_configuration_db.txt''"
  have ls: "os_listdir env_refused (disk db_client) = [] @ ?db # []"
    and ls': "os_listdir env_refused (disk mixed_client) = [] @ ?app # [?db]"
    by (simp_all add: env_refused_def list_entries_def db_client_def mixed_client_def
        demo_client_def)
  have db: "scanned (disk db_client) ?db"
    and bad: "scanned (disk mixed_client) ?app"
    by (simp_all add: db_client_files mixed_client_files)
  have good: "json_loads (file_read (disk db_client) ?db) = Inr (JObj [(''timeout'', JStr ''60'')])"
    by (simp add: db_client_files loads_timeout_60)
  have nope: "json_loads (file_read (disk mixed_client) ?app) = Inl JSONDecodeError"
    by (simp add: mixed_client_files loads_not_json)
  have all: "\<forall>f \<in> set (os_listdir env_refused (disk db_client)).
               scanned (disk db_client) f \<longrightarrow> parses (disk db_client) f"
    using good ls by (simp add: parses_def)
  from read_from_local_cache_file_scan [of env_refused db_client, THEN conjunct1] all
  obtain s' where ret: "read_from_local_cache_file env_refused db_client = Return s'"
    and each: "\<forall>pre f post. os_listdir env_refused (disk db_client) = pre @ f # post
        \<and> scanned (disk db_client) f
        \<and> (\<forall>g \<in> set post. scanned (disk db_client) g \<longrightarrow> file_namespace g \<noteq> file_namespace f)
        \<longrightarrow> (\<exists>v. json_loads (file_read (disk db_client) f) = Inr v
                 \<and> cache s' (file_namespace f) = Some v)"
    by blast
  from each [rule_format, of "[]" ?db "[]"] ls db good
  have "cache s' ''db'' = Some (JObj [(''timeout'', JStr ''60'')])"
    by (simp add: file_namespace_db)
  moreover
  from read_from_local_cache_file_scan [of env_refused mixed_client "[]" ?app "[?db]" JSONDecodeError]
    ls' bad nope
  have "read_from_local_cache_file env_refused mixed_client = Raise JSONDecodeError mixed_client"
    by (simp add: final_def)
  ultimately show ?thesis using ret by (simp add: raised_def final_def)
qed

text \<open>
  C7 as stated fails: with an unparseable record listed first, the scan raises and
  the well-formed record after it is not loaded.
\<close>

theorem read_from_local_cache_file_malformed_raises:
  "raised (read_from_local_cache_file env_refused mixed_client) = Some JSONDecodeError
   \<and> cache (final (read_from_local_cache_file env_refused mixed_client)) ''db'' = None
   \<and> json_loads (file_read (disk mixed_client) ''test_configuration_db.txt'')
       = Inr (JObj [(''timeout'', JStr ''60'')])"
proof -
  have "cache mixed_client ''db'' = None"
    by (simp add: mixed_client_def demo_client_def)
  then show ?thesis
    by (simp add: mixed_client_scan raised_def final_def mixed_client_files loads_timeout_60)
qed








section \<open>Fetching one namespace\<close>

lemma get_config_success:
  assumes "http_get env (release_url self namespace) = Inr r"
    and "status_code r = 200"
    and "body_json r = Inr (JObj data)"
    and "map_of data ''configurations'' = Some (JStr s)"
    and "map_of data ''releaseKey'' = Some release_key"
    and "json_loads s = Inr snapshot"
  shows "get_config_by_namespace env namespace self =
           (case update_local_cache env release_key (JStr s) namespace
                   (self\<lparr>cache := (cache self)(namespace \<mapsto> snapshot)\<rparr>) of
              Return s' \<Rightarrow> Return s'
            | Raise e s1 \<Rightarrow>
               (case get_local_cache_by_namespace namespace s1 of
                  Inl e' \<Rightarrow> Raise e' s1
                | Inr local \<Rightarrow> Return (s1\<lparr>cache := (cache s1)(namespace \<mapsto> local)\<rparr>)))"
proof -
  have "get_config_try env namespace self =
          update_local_cache env release_key (JStr s) namespace
            (self\<lparr>cache := (cache self)(namespace \<mapsto> snapshot)\<rparr>)"
    using assms
    by (simp add: get_config_try_def py_get_def py_json_loads_def py_getitem_def)
  moreover have "\<And>e s1. update_local_cache env release_key (JStr s) namespace
            (self\<lparr>cache := (cache self)(namespace \<mapsto> snapshot)\<rparr>) = Raise e s1 \<Longrightarrow> str_exn e = Inr ()"
    by (auto simp: update_local_cache_def Let_def str_exn_def is_BasicException_def
        split: if_splits)
  ultimately show ?thesis
    by (auto simp: get_config_by_namespace_def split: outcome.splits sum.splits)
qed

lemma get_config_failed:
  assumes "fetch_fails env self namespace"
  shows "get_config_by_namespace env namespace self =
           (case get_local_cache_by_namespace namespace self of
              Inl e \<Rightarrow> Raise e self
            | Inr data \<Rightarrow> Return (self\<lparr>cache := (cache self)(namespace \<mapsto> data)\<rparr>))"
proof (cases "http_get env (release_url self namespace)")
  case (Inl e)
  with assms have "is_Exception e" by (simp add: fetch_fails_def)
  then have "str_exn e = Inr ()" by (simp add: str_exn_def is_Exception_def)
  with Inl show ?thesis
    by (simp add: get_config_by_namespace_def get_config_try_def)
next
  case (Inr r)
  with assms have "status_code r \<noteq> 200" by (simp add: fetch_fails_def)
  with Inr have body: "get_config_try env namespace self =
      (case get_local_cache_by_namespace namespace self of
         Inl e \<Rightarrow> Raise e self
       | Inr data \<Rightarrow> Return (self\<lparr>cache := (cache self)(namespace \<mapsto> data)\<rparr>))"
    by (simp add: get_config_try_def)
  have "\<And>e. get_local_cache_by_namespace namespace self = Inl e \<Longrightarrow> str_exn e = Inr ()"
    by (auto simp: get_local_cache_by_namespace_def json_loads_def Let_def str_exn_def
        is_BasicException_def split: if_splits option.splits prod.splits)
  then show ?thesis
    by (auto simp: get_config_by_namespace_def body split: sum.splits)
qed







text \<open>
  The per-namespace read decodes the first line of the file only, the cold-start
  scan the whole file: a record of two lines is refused by the one and accepted by
  the other.
\<close>

lemma two_line_record_read_by_line:
  \<open>get_local_cache_by_namespace ''application'' two_line_client = Inl JSONDecodeError
   \<and> json_loads (file_read (disk two_line_client) ''test_configuration_application.txt'')
       = Inr (JObj [(''timeout'', JStr ''60'')])\<close>
  by (simp add: get_local_cache_by_namespace_def isfile_def file_read_def two_line_client_def
      demo_client_def cache_file_name_def readline_def CR_def LF_def loads_two_lines)

section \<open>The synchronization pass\<close>

lemma touches_only_refl: "touches_only n s s"
  by (simp add: touches_only_def)

lemma touches_only_trans:
  "touches_only n s s1 \<Longrightarrow> touches_only n s1 s2 \<Longrightarrow> touches_only n s s2"
  by (simp add: touches_only_def)

lemma touches_only_cache: "touches_only n s (s\<lparr>cache := (cache s)(n \<mapsto> v)\<rparr>)"
  by (simp add: touches_only_def)

lemma update_local_cache_touches:
  "touches_only n s (final (update_local_cache env release_key data n s))"
  by (auto simp: update_local_cache_def touches_only_def final_def Let_def split: json.splits)

lemma get_config_try_touches:
  "touches_only n s (final (get_config_try env n s))"
proof -
  have upd: "touches_only n s (final (update_local_cache env k d n (s\<lparr>cache := (cache s)(n \<mapsto> v)\<rparr>)))"
    for k d v
    using touches_only_trans [OF touches_only_cache update_local_cache_touches] .
  show ?thesis
    unfolding get_config_try_def
    by (auto simp: Let_def touches_only_refl touches_only_cache upd final_def [of "Return _"]
        final_def [of "Raise _ _"] split: sum.splits)
qed

lemma get_config_touches:
  "touches_only n s (final (get_config_by_namespace env n s))"
proof (cases "get_config_try env n s")
  case (Return s1)
  with get_config_try_touches [of n s env] show ?thesis
    by (simp add: get_config_by_namespace_def final_def)
next
  case (Raise e s1)
  with get_config_try_touches [of n s env] have t: "touches_only n s s1"
    by (simp add: final_def)
  have "touches_only n s1 (s1\<lparr>cache := (cache s1)(n \<mapsto> v)\<rparr>)" for v
    by (rule touches_only_cache)
  with t have "touches_only n s (s1\<lparr>cache := (cache s1)(n \<mapsto> v)\<rparr>)" for v
    by (rule touches_only_trans)
  with t Raise show ?thesis
    by (simp add: get_config_by_namespace_def final_def split: sum.splits)
qed

lemma touches_only_other:
  assumes "touches_only n s s'" and "m \<noteq> n"
  shows "cache s' m = cache s m"
    and "fetch_fails env s' m = fetch_fails env s m"
    and "isfile (disk s') (cache_file_name (app_id s') m) = isfile (disk s) (cache_file_name (app_id s) m)"
  using assms by (simp_all add: touches_only_def fetch_fails_def release_url_def isfile_def)

lemma fetch_namespaces_cache_other:
  "namespace \<notin> set nss \<Longrightarrow> cache (final (fetch_namespaces env nss s)) namespace = cache s namespace"
proof (induction nss arbitrary: s)
  case Nil
  show ?case by (simp add: final_def)
next
  case (Cons n nss)
  then have ne: "namespace \<noteq> n" and rest: "namespace \<notin> set nss" by auto
  have step: "cache (final (get_config_by_namespace env n s)) namespace = cache s namespace"
    using touches_only_other(1) [OF get_config_touches ne] .
  show ?case
  proof (cases "get_config_by_namespace env n s")
    case (Return s1)
    with step Cons.IH [OF rest, of s1] show ?thesis by (simp add: final_def)
  next
    case (Raise e s1)
    with step show ?thesis by (simp add: final_def)
  qed
qed

lemma fetch_namespaces_failed_entry:
  assumes "distinct nss" and "namespace \<in> set nss"
    and "fetch_fails env s namespace"
    and "\<not> isfile (disk s) (cache_file_name (app_id s) namespace)"
    and "fetch_namespaces env nss s = Return s'"
  shows "cache s' namespace = Some (JObj [])"
  using assms
proof (induction nss arbitrary: s)
  case Nil
  then show ?case by simp
next
  case (Cons n nss)
  from Cons.prems(5) obtain s1 where s1: "get_config_by_namespace env n s = Return s1"
    and rest: "fetch_namespaces env nss s1 = Return s'"
    by (auto split: outcome.splits)
  show ?case
  proof (cases "n = namespace")
    case True
    with Cons.prems(3,4) s1 have "cache s1 namespace = Some (JObj [])"
      by (auto simp: get_config_failed get_local_cache_by_namespace_def)
    moreover from True Cons.prems(1) have "namespace \<notin> set nss" by simp
    ultimately show ?thesis
      using fetch_namespaces_cache_other [of namespace nss env s1] rest by (simp add: final_def)
  next
    case False
    have t: "touches_only n s s1"
      using get_config_touches [of n s env] s1 by (simp add: final_def)
    have ne: "namespace \<noteq> n" using False by simp
    show ?thesis
    proof (rule Cons.IH [OF _ _ _ _ rest])
      show "distinct nss" using Cons.prems(1) by simp
      show "namespace \<in> set nss" using Cons.prems(2) False by simp
      show "fetch_fails env s1 namespace"
        using touches_only_other(2) [OF t ne] Cons.prems(3) by simp
      show "\<not> isfile (disk s1) (cache_file_name (app_id s1) namespace)"
        using touches_only_other(3) [OF t ne] Cons.prems(4) by simp
    qed
  qed
qed

text \<open>
  C1, as the code has it. Let a discovered namespace have no cache file, and let
  its remote fetch fail with a response other than 200 or with an exception of the
  \<^verbatim>\<open>Exception\<close> hierarchy. If the loop over the namespaces completes, the pass
  returns and the cache entry of that namespace is the empty mapping, whatever it
  was before.
\<close>

theorem failed_fetch_without_record:
  assumes "get_namespaces env self = Inr namespaces"
    and "namespace \<in> set (map fst namespaces)"
    and "fetch_fails env self namespace"
    and "\<not> isfile (disk self) (cache_file_name (app_id self) namespace)"
    and "fetch_namespaces env (map fst namespaces) (self\<lparr>notification_map := namespaces\<rparr>) = Return s'"
  shows "read_from_server env self = Return s' \<and> cache s' namespace = Some (JObj [])"
proof -
  let ?s = "self\<lparr>notification_map := namespaces\<rparr>"
  have "read_from_server_try env self = Return s'"
    using assms(1,5) by (simp add: read_from_server_try_def)
  then have "read_from_server env self = Return s'"
    by (simp add: read_from_server_def)
  moreover have "cache s' namespace = Some (JObj [])"
  proof (rule fetch_namespaces_failed_entry [OF get_namespaces_distinct [OF assms(1)] assms(2) _ _ assms(5)])
    show "fetch_fails env ?s namespace"
      using assms(3) by (simp add: fetch_fails_def release_url_def)
    show "\<not> isfile (disk ?s) (cache_file_name (app_id ?s) namespace)"
      using assms(4) by simp
  qed
  ultimately show ?thesis by simp
qed

lemma discovered_application_down:
  "get_namespaces env_application_down warm_client
     = Inr [(''application'', JInt 1), (''db'', JInt 2)]"
  by (simp add: get_namespaces_def http_get_def warm_urls env_application_down_def
      namespaces_200_def py_iter_def py_get_def)

lemma fetch_application_down:
  "fetch_fails env_application_down warm_client ''application''"
  "fetch_fails env_application_down (warm_client\<lparr>notification_map := nm\<rparr>) ''application''"
  by (simp_all add: fetch_fails_def http_get_def warm_urls env_application_down_def
      is_Exception_def is_BasicException_def)

lemma no_record_warm:
  "\<not> isfile (disk warm_client) (cache_file_name (app_id warm_client) ''application'')"
  "\<not> isfile (disk (warm_client\<lparr>notification_map := nm\<rparr>))
       (cache_file_name (app_id (warm_client\<lparr>notification_map := nm\<rparr>)) ''application'')"
  by (simp_all add: isfile_def warm_client_def demo_client_def)

lemma pass_application_down:
  \<open>fetch_namespaces env_application_down [''application'', ''db'']
      (warm_client\<lparr>notification_map := [(''application'', JInt 1), (''db'', JInt 2)]\<rparr>)
    = Return (warm_client
        \<lparr>notification_map := [(''application'', JInt 1), (''db'', JInt 2)],
         cache := [''application'' \<mapsto> JObj [], ''db'' \<mapsto> JObj [(''timeout'', JStr ''60'')]],
         disk := [''test_configuration_db.txt'' \<mapsto> File ''{"timeout":"60"}''],
         write_log := [(''test_configuration_db.txt'', ''{"timeout":"60"}'')],
         hash := [''db'' \<mapsto> JStr ''r1'']\<rparr>)\<close>
proof -
  let ?nm = "[(''application'', JInt 1), (''db'', JInt 2)]"
  let ?s0 = "warm_client\<lparr>notification_map := ?nm\<rparr>"
  let ?s1 = "warm_client\<lparr>notification_map := ?nm, cache := [''application'' \<mapsto> JObj []]\<rparr>"
  have a: "get_config_by_namespace env_application_down ''application'' ?s0 = Return ?s1"
    using get_config_failed [OF fetch_application_down(2) [of ?nm]] no_record_warm(2) [of ?nm]
    by (simp add: get_local_cache_by_namespace_def warm_client_def)
  have "http_get env_application_down (release_url ?s1 ''db'') = Inr release_60"
    by (simp add: http_get_def env_application_down_def warm_urls)
  from get_config_success [OF this, where release_key = "JStr ''r1''"
      and snapshot = "JObj [(''timeout'', JStr ''60'')]" and s = \<open>''{"timeout":"60"}''\<close>
      and data = \<open>[(''releaseKey'', JStr ''r1''), (''configurations'', JStr ''{"timeout":"60"}'')]\<close>]
  have b: \<open>get_config_by_namespace env_application_down ''db'' ?s1
      = Return (warm_client
        \<lparr>notification_map := ?nm,
         cache := [''application'' \<mapsto> JObj [], ''db'' \<mapsto> JObj [(''timeout'', JStr ''60'')]],
         disk := [''test_configuration_db.txt'' \<mapsto> File ''{"timeout":"60"}''],
         write_log := [(''test_configuration_db.txt'', ''{"timeout":"60"}'')],
         hash := [''db'' \<mapsto> JStr ''r1'']\<rparr>)\<close>
    by (simp add: release_60_def loads_timeout_60 update_local_cache_def env_application_down_def
        warm_client_def demo_client_def cache_file_name_def Let_def)
  show ?thesis by (simp add: a b)
qed

text \<open>The server lists two namespaces and cannot be reached for the first.\<close>

theorem failed_fetch_without_record_witness:
  "fetch_fails env_application_down warm_client ''application''
   \<and> \<not> isfile (disk warm_client) (cache_file_name (app_id warm_client) ''application'')
   \<and> raised (read_from_server env_application_down warm_client) = None
   \<and> cache (final (read_from_server env_application_down warm_client)) ''application''
       = Some (JObj [])"
proof -
  have "''application'' \<in> set (map fst [(''application'', JInt 1), (''db'', JInt (2::int))])"
    by simp
  from failed_fetch_without_record [OF discovered_application_down this
      fetch_application_down(1) no_record_warm(1)] pass_application_down
  show ?thesis
    using fetch_application_down(1) no_record_warm(1)
    by (simp add: raised_def final_def)
qed

text \<open>
  C1 as stated fails: the snapshot in memory is replaced by the empty one when the
  server answers 503 and there is no cache file.
\<close>

theorem failed_fetch_without_record_empties_cache:
  "raised (read_from_server env_unavailable warm_client) = None
   \<and> cache warm_client ''application'' = Some (JObj [(''timeout'', JStr ''60'')])
   \<and> \<not> isfile (disk warm_client) (cache_file_name (app_id warm_client) ''application'')
   \<and> cache (final (read_from_server env_unavailable warm_client)) ''application'' = Some (JObj [])"
  by (simp add: read_from_server_def read_from_server_try_def get_namespaces_def http_get_def
      env_unavailable_def warm_client_def demo_client_def get_config_by_namespace_def
      get_config_try_def get_local_cache_by_namespace_def isfile_def raised_def final_def)











text \<open>
  What does hold: a fetch that fails with a response other than 200 or with an
  exception of the \<^verbatim>\<open>Exception\<close> hierarchy, on a namespace whose cache file
  is absent or decodes, changes the cache entry of that namespace only, and the
  loop goes on with the namespaces that follow.
\<close>

lemma handled_failure_lets_the_loop_go_on:
  assumes "fetch_fails env self namespace"
    and "get_local_cache_by_namespace namespace self = Inr data"
  shows "fetch_namespaces env (namespace # rest) self
           = fetch_namespaces env rest (self\<lparr>cache := (cache self)(namespace \<mapsto> data)\<rparr>)"
  using assms by (simp add: get_config_failed)

end
